theory Spec2Isabelle
  imports Main "HOL-Library.Sublist"
begin

section \<open>Text primitives\<close>

text \<open>
  Command texts are Python \<^verbatim>\<open>str\<close> values; they are modelled as HOL strings.
  The model covers ASCII texts: \<open>lower\<close> maps the letters \<open>A\<close> to \<open>Z\<close> to
  \<open>a\<close> to \<open>z\<close> and leaves every other character alone, and \<open>len\<close> is the
  number of characters.
\<close>

definition lower_char :: "char \<Rightarrow> char" where
  "lower_char c =
     (if 65 \<le> (of_char c :: nat) \<and> (of_char c :: nat) \<le> 90
      then char_of ((of_char c :: nat) + 32) else c)"

definition lower :: "string \<Rightarrow> string" where
  "lower s = map lower_char s"

text \<open>Python's \<^verbatim>\<open>needle in haystack\<close> on strings: \<open>needle\<close> occurs as a contiguous run.\<close>

fun str_in :: "string \<Rightarrow> string \<Rightarrow> bool" where
  "str_in needle [] = (needle = [])"
| "str_in needle (c # cs) = (prefix needle (c # cs) \<or> str_in needle cs)"

text \<open>
  The characters for which \<^verbatim>\<open>str.isspace\<close> holds among the ASCII ones; they are what
  \<^verbatim>\<open>\s\<close> matches in a pattern and what \<^verbatim>\<open>str.strip()\<close> removes.
\<close>

definition whitespace :: "char list" where
  "whitespace = map char_of [9, 10, 11, 12, 13, 28, 29, 30, 31, 32 :: nat]"

section \<open>Regular expressions of the suspicious patterns\<close>

text \<open>
  The five patterns of \<^verbatim>\<open>SecurityChecker.__init__\<close> are sequences of items, each a
  character class or a starred character class. \<open>re_search\<close> is \<^verbatim>\<open>re.search\<close> read as
  a truth value: some position of the text starts a match of the whole sequence.
\<close>

datatype cls = In "char list" | NotIn "char list"

datatype item = One cls | Many cls

type_synonym pattern = "item list"

fun in_cls :: "cls \<Rightarrow> char \<Rightarrow> bool" where
  "in_cls (In cs) c = (c \<in> set cs)"
| "in_cls (NotIn cs) c = (c \<notin> set cs)"

fun match_here :: "pattern \<Rightarrow> string \<Rightarrow> bool" where
  "match_here [] s = True"
| "match_here (One k # p) [] = False"
| "match_here (One k # p) (c # s) = (in_cls k c \<and> match_here p s)"
| "match_here (Many k # p) [] = match_here p []"
| "match_here (Many k # p) (c # s) =
     (match_here p (c # s) \<or> (in_cls k c \<and> match_here (Many k # p) s))"

fun re_search :: "pattern \<Rightarrow> string \<Rightarrow> bool" where
  "re_search p [] = match_here p []"
| "re_search p (c # s) = (match_here p (c # s) \<or> re_search p s)"

definition pipe_chain :: pattern where
  \<comment> \<open>\<^verbatim>\<open>[\|&;]\<close>\<close>
  "pipe_chain = [One (In ''|&;'')]"

definition redirect_system :: pattern where
  \<comment> \<open>\<^verbatim>\<open>>\s*[/\\]\<close>\<close>
  "redirect_system = [One (In ''>''), Many (In whitespace), One (In [CHR ''/'', CHR 0x5C])]"

definition angle_redirect :: pattern where
  \<comment> \<open>\<^verbatim>\<open><.*>\<close>; the dot matches every character but the newline\<close>
  "angle_redirect = [One (In ''<''), Many (NotIn [CHR 0x0A]), One (In ''>'')]"

definition command_substitution :: pattern where
  \<comment> \<open>\<^verbatim>\<open>\$\([^)]*\)\<close>\<close>
  "command_substitution = [One (In ''$''), One (In ''(''), Many (NotIn '')''), One (In '')'')]"

definition backtick_execution :: pattern where
  \<comment> \<open>a backtick, any run of characters other than the backtick, a backtick\<close>
  "backtick_execution = [One (In [CHR 0x60]), Many (NotIn [CHR 0x60]), One (In [CHR 0x60])]"

section \<open>SecurityChecker\<close>

record SecurityChecker =
  dangerous_commands :: "string list"
  suspicious_patterns :: "pattern list"

definition SecurityChecker_init :: "string list \<Rightarrow> SecurityChecker" where
  "SecurityChecker_init dangerous =
     \<lparr>dangerous_commands = dangerous,
      suspicious_patterns =
        [pipe_chain, redirect_system, angle_redirect, command_substitution,
         backtick_execution]\<rparr>"

text \<open>
  A warning is the fixed Russian sentence of the source followed by the term or by the
  pattern; the constructor stands for the sentence.
\<close>

datatype warning = DangerousWarning string | PatternWarning pattern

record check_result =
  safe :: bool
  warnings :: "warning list"
  dangerous_parts :: "string list"
  risk_level :: string

text \<open>The bodies of the two loops of \<^verbatim>\<open>check_command\<close>, each updating the result.\<close>

definition dangerous_step :: "string \<Rightarrow> string \<Rightarrow> check_result \<Rightarrow> check_result" where
  "dangerous_step command_lower dangerous_cmd result =
     (if str_in (lower dangerous_cmd) command_lower
      then result\<lparr>safe := False,
             dangerous_parts := dangerous_parts result @ [dangerous_cmd],
             warnings := warnings result @ [DangerousWarning dangerous_cmd]\<rparr>
      else result)"

definition pattern_step :: "string \<Rightarrow> pattern \<Rightarrow> check_result \<Rightarrow> check_result" where
  "pattern_step command pat result =
     (if re_search pat command
      then result\<lparr>safe := False, warnings := warnings result @ [PatternWarning pat]\<rparr>
      else result)"

definition assign_risk :: "check_result \<Rightarrow> check_result" where
  "assign_risk result =
     (if length (dangerous_parts result) > 2 then result\<lparr>risk_level := ''high''\<rparr>
      else if length (dangerous_parts result) > 0 then result\<lparr>risk_level := ''medium''\<rparr>
      else result)"

definition check_command :: "SecurityChecker \<Rightarrow> string \<Rightarrow> check_result" where
  "check_command self command =
     (let result = \<lparr>safe = True, warnings = [], dangerous_parts = [], risk_level = ''low''\<rparr>;
          command_lower = lower command;
          result = fold (dangerous_step command_lower) (dangerous_commands self) result;
          result = fold (pattern_step command) (suspicious_patterns self) result
      in assign_risk result)"

section \<open>MessageHistory\<close>

record HistoryEntry =
  role :: string
  content :: string
  timestamp :: string

record MessageHistory =
  limit :: int
  messages :: "HistoryEntry list"

definition MessageHistory_init :: "int \<Rightarrow> MessageHistory" where
  "MessageHistory_init lim = \<lparr>limit = lim, messages = []\<rparr>"

text \<open>
  Python slices with a positive step. A bound \<open>i\<close> of a slice over \<open>n\<close> elements counts
  from the end when it is negative, and is clamped to \<open>0 .. n\<close>.
\<close>

definition slice_bound :: "nat \<Rightarrow> int \<Rightarrow> nat" where
  "slice_bound n i = (if i < 0 then nat (max (int n + i) 0) else min (nat i) n)"

definition slice_from :: "'a list \<Rightarrow> int \<Rightarrow> 'a list" where
  \<comment> \<open>\<^verbatim>\<open>xs[i:]\<close>\<close>
  "slice_from xs i = drop (slice_bound (length xs) i) xs"

fun stride :: "nat \<Rightarrow> 'a list \<Rightarrow> 'a list" where
  "stride k [] = []"
| "stride k (x # xs) = x # stride k (drop (k - 1) xs)"

definition slice_to_step :: "'a list \<Rightarrow> int \<Rightarrow> nat \<Rightarrow> 'a list" where
  \<comment> \<open>\<^verbatim>\<open>xs[:j:k]\<close> for a step \<open>k \<ge> 1\<close>\<close>
  "slice_to_step xs j k = stride k (take (slice_bound (length xs) j) xs)"

definition compress_history :: "MessageHistory \<Rightarrow> MessageHistory" where
  "compress_history self =
     (if int (length (messages self)) > limit self
      then (let recent = slice_from (messages self) (- 20);
                old_compressed = slice_to_step (messages self) (- 20) 5
            in self\<lparr>messages := old_compressed @ recent\<rparr>)
      else self)"

text \<open>The timestamp is the clock's reading at the call, an input of the model.\<close>

definition add_message :: "MessageHistory \<Rightarrow> string \<Rightarrow> string \<Rightarrow> string \<Rightarrow> MessageHistory" where
  "add_message self r c now =
     (let self = self\<lparr>messages := messages self @ [\<lparr>role = r, content = c, timestamp = now\<rparr>]\<rparr>
      in if int (length (messages self)) > limit self then compress_history self else self)"

definition get_history :: "MessageHistory \<Rightarrow> HistoryEntry list" where
  "get_history self = messages self"

definition clear :: "MessageHistory \<Rightarrow> MessageHistory" where
  "clear self = self\<lparr>messages := []\<rparr>"

text \<open>A run of appends, each with its role, content and clock reading.\<close>

fun add_messages :: "MessageHistory \<Rightarrow> (string \<times> string \<times> string) list \<Rightarrow> MessageHistory" where
  "add_messages self [] = self"
| "add_messages self ((r, c, now) # rest) = add_messages (add_message self r c now) rest"

text \<open>
  The compaction in the words of the specification: every fifth entry of those that
  precede the most recent twenty, oldest first, then the most recent twenty.
\<close>

definition preceding_recent :: "'a list \<Rightarrow> 'a list" where
  "preceding_recent xs = take (length xs - 20) xs"

definition most_recent :: "'a list \<Rightarrow> 'a list" where
  "most_recent xs = drop (length xs - 20) xs"

definition every_fifth :: "'a list \<Rightarrow> 'a list" where
  "every_fifth ys = map (\<lambda>j. ys ! (5 * j)) [0 ..< (length ys + 4) div 5]"

definition spec_compaction :: "'a list \<Rightarrow> 'a list" where
  "spec_compaction xs = every_fifth (preceding_recent xs) @ most_recent xs"

section \<open>CommandExecutor\<close>

text \<open>
  How a call of \<^verbatim>\<open>subprocess.run\<close> ends: it returns a completed process (return code,
  standard output, standard error), raises \<^verbatim>\<open>TimeoutExpired\<close>, or raises another
  exception \<open>e\<close>, given by \<^verbatim>\<open>str(e)\<close>. The operating system is an input of the model:
  a function from the command and the timeout in seconds to the way the call ends.
\<close>

datatype proc_outcome = Completed int string string | TimeoutExpired | Raised string

datatype exec_result = Success string string int | Failure string


record CommandExecutor =
  os_type :: string

definition timeout_message :: string where
  \<comment> \<open>the Russian sentence of the source, transliterated: the command exceeded the
     limit of execution time (30 s)\<close>
  "timeout_message = ''Komanda prevysila limit vremeni vypolneniya (30 sek)''"

definition execute_command ::
  "CommandExecutor \<Rightarrow> (string \<Rightarrow> nat \<Rightarrow> proc_outcome) \<Rightarrow> string \<Rightarrow> exec_result" where
  "execute_command self subprocess_run command =
     (case (if os_type self = ''windows'' then subprocess_run command 30
            else subprocess_run command 30) of
        Completed returncode out err \<Rightarrow> Success out err returncode
      | TimeoutExpired \<Rightarrow> Failure timeout_message
      | Raised e \<Rightarrow> Failure e)"

section \<open>DiscordBot\<close>

text \<open>
  The configuration dictionary, with the keys the command pipeline and the history read
  (the token, the prefix and the completion model are left out). A key may be absent:
  \<^verbatim>\<open>config.get(key, default)\<close> is \<open>get_or\<close>.
\<close>

record Config =
  cfg_os_type :: "string option"
  cfg_message_history_limit :: "int option"
  cfg_dangerous_commands :: "string list option"
  cfg_auto_approve_safe :: "bool option"
  cfg_max_command_length :: "int option"

fun get_or :: "'a option \<Rightarrow> 'a \<Rightarrow> 'a" where
  "get_or None d = d"
| "get_or (Some v) d = v"

record DiscordBot =
  config :: Config
  history :: MessageHistory
  security_checker :: SecurityChecker
  executor :: CommandExecutor
  pending_commands :: "string \<rightharpoonup> string"

definition DiscordBot_init :: "Config \<Rightarrow> DiscordBot" where
  "DiscordBot_init cfg =
     \<lparr>config = cfg,
      history = MessageHistory_init (get_or (cfg_message_history_limit cfg) 50),
      security_checker = SecurityChecker_init (get_or (cfg_dangerous_commands cfg) []),
      executor = \<lparr>os_type = get_or (cfg_os_type cfg) ''windows''\<rparr>,
      pending_commands = Map.empty\<rparr>"

text \<open>
  What lies outside the program: the digest \<^verbatim>\<open>hashlib.md5(text.encode()).hexdigest()\<close>
  and \<^verbatim>\<open>subprocess.run\<close>. Both are inputs of the model; the statements below hold for
  every digest function and every behaviour of the shell. Within one handler the shell
  ends a given command the same way each time it is called.
\<close>

record World =
  md5_hexdigest :: "string \<Rightarrow> string"
  subprocess_run :: "string \<Rightarrow> nat \<Rightarrow> proc_outcome"

text \<open>
  The messages the bot sends to the channel. A constructor stands for the fixed text of
  the source and carries the values the text is rendered from; the rendering itself
  (labels, code fences, the cut at 1800 characters) is not modelled.
\<close>

datatype message =
    Processing
  | AIAnswer string
  | AIError string
  | NotFound
  | TooLong
  | ApprovalPrompt string string check_result
  | Executing string
  | ExecutionOutput string string int
  | ExecutionError string
  | HistoryEmpty
  | HistoryText "HistoryEntry list"
  | HistoryCleared

text \<open>
  A handler returns the calls it makes on its collaborators, in order, and the bot
  afterwards: a message sent to the channel, a call of the classifier, a call of the
  executor.
\<close>

datatype call = Send message | CheckCommand string | ExecuteCommand string

definition execute_command_directly ::
  "World \<Rightarrow> DiscordBot \<Rightarrow> string \<Rightarrow> call list \<times> DiscordBot" where
  "execute_command_directly w self command =
     (let result = execute_command (executor self) (subprocess_run w) command
      in ([Send (Executing command), ExecuteCommand command,
           Send (case result of
                   Success out err returncode \<Rightarrow> ExecutionOutput out err returncode
                 | Failure e \<Rightarrow> ExecutionError e)],
          self))"

definition request_approval ::
  "World \<Rightarrow> DiscordBot \<Rightarrow> string \<Rightarrow> check_result \<Rightarrow> call list \<times> DiscordBot" where
  "request_approval w self command security_result =
     (let command_id = take 8 (md5_hexdigest w command);
          self = self\<lparr>pending_commands := (pending_commands self)(command_id \<mapsto> command)\<rparr>
      in ([Send (ApprovalPrompt command_id command security_result)], self))"

definition execute_with_security_check ::
  "World \<Rightarrow> DiscordBot \<Rightarrow> string \<Rightarrow> call list \<times> DiscordBot" where
  "execute_with_security_check w self command =
     (if int (length command) > get_or (cfg_max_command_length (config self)) 1000
      then ([Send TooLong], self)
      else
        (let security_result = check_command (security_checker self) command;
             (calls, self) =
               (if safe security_result \<or> get_or (cfg_auto_approve_safe (config self)) False
                then execute_command_directly w self command
                else request_approval w self command security_result)
         in (CheckCommand command # calls, self)))"

definition approve_command ::
  "World \<Rightarrow> DiscordBot \<Rightarrow> string option \<Rightarrow> call list \<times> DiscordBot" where
  "approve_command w self command_id =
     (case command_id of
        None \<Rightarrow> ([Send NotFound], self)
      | Some cid \<Rightarrow>
          (if cid \<noteq> [] then
             (case pending_commands self cid of
                Some command \<Rightarrow>
                  execute_command_directly w
                    (self\<lparr>pending_commands := (pending_commands self)(cid := None)\<rparr>) command
              | None \<Rightarrow> ([Send NotFound], self))
           else ([Send NotFound], self)))"

definition show_history :: "DiscordBot \<Rightarrow> call list \<times> DiscordBot" where
  "show_history self =
     (let h = get_history (history self)
      in if h = [] then ([Send HistoryEmpty], self)
         else ([Send (HistoryText (slice_from h (- 10)))], self))"

definition clear_history :: "DiscordBot \<Rightarrow> call list \<times> DiscordBot" where
  "clear_history self = ([Send HistoryCleared], self\<lparr>history := clear (history self)\<rparr>)"

subsection \<open>Commands in a reply of the completion engine\<close>

definition newline :: char where
  "newline = CHR 0x0A"

fun split_lines :: "string \<Rightarrow> string list" where
  \<comment> \<open>\<^verbatim>\<open>s.split('\n')\<close>\<close>
  "split_lines [] = [[]]"
| "split_lines (c # cs) =
     (if c = newline then [] # split_lines cs
      else (case split_lines cs of [] \<Rightarrow> [[c]] | l # ls \<Rightarrow> (c # l) # ls))"

fun join_lines :: "string list \<Rightarrow> string" where
  \<comment> \<open>\<^verbatim>\<open>'\n'.join(ls)\<close>\<close>
  "join_lines [] = []"
| "join_lines [l] = l"
| "join_lines (l # ls) = l @ newline # join_lines ls"

definition strip :: "string \<Rightarrow> string" where
  "strip s =
     rev (dropWhile (\<lambda>c. c \<in> set whitespace) (rev (dropWhile (\<lambda>c. c \<in> set whitespace) s)))"

function remove_all :: "string \<Rightarrow> string \<Rightarrow> string" where
  \<comment> \<open>\<^verbatim>\<open>s.replace(old, '')\<close> for a non-empty \<open>old\<close>\<close>
  "remove_all old s =
     (if old = [] \<or> s = [] then s
      else if prefix old s then remove_all old (drop (length old) s)
      else hd s # remove_all old (tl s))"
  by pat_completeness auto
termination
  by (relation "measure (\<lambda>(old, s). length s)") auto

fun check_all :: "World \<Rightarrow> DiscordBot \<Rightarrow> string list \<Rightarrow> call list \<times> DiscordBot" where
  "check_all w self [] = ([], self)"
| "check_all w self (command # rest) =
     (let (calls, self) = execute_with_security_check w self command;
          (more_calls, self) = check_all w self rest
      in (calls @ more_calls, self))"

definition extract_commands :: "string \<Rightarrow> string list" where
  "extract_commands response =
     map (\<lambda>line. strip (remove_all ''COMMAND:'' line))
       (filter (\<lambda>line. prefix ''COMMAND:'' (strip line)) (split_lines response))"

definition extract_text :: "string \<Rightarrow> string list" where
  "extract_text response =
     filter (\<lambda>line. \<not> prefix ''COMMAND:'' (strip line)) (split_lines response)"

definition handle_command_response ::
  "World \<Rightarrow> DiscordBot \<Rightarrow> string \<Rightarrow> call list \<times> DiscordBot" where
  "handle_command_response w self response =
     (let commands = extract_commands response;
          text_parts = extract_text response;
          text_response = strip (join_lines text_parts);
          (calls, self) = check_all w self commands
      in ((if text_parts \<noteq> [] \<and> text_response \<noteq> [] then [Send (AIAnswer text_response)]
           else []) @ calls, self))"

text \<open>
  The completion engine answers with a text or fails with an exception. The prompt sent
  to it reads \<^verbatim>\<open>config['os_type']\<close>, which raises \<^verbatim>\<open>KeyError\<close> when the key is absent;
  the handler catches every exception and reports it.
\<close>

datatype completion = Response string | EngineError string

definition ask_ai ::
  "World \<Rightarrow> DiscordBot \<Rightarrow> string \<Rightarrow> string \<Rightarrow> completion \<Rightarrow> string \<Rightarrow>
   call list \<times> DiscordBot" where
  "ask_ai w self question now answer later =
     (let self = self\<lparr>history := add_message (history self) ''user'' question now\<rparr>
      in case cfg_os_type (config self) of
           None \<Rightarrow> ([Send Processing, Send (AIError (CHR 0x27 # ''os_type'' @ [CHR 0x27]))], self)
         | Some os \<Rightarrow>
             (case answer of
                EngineError e \<Rightarrow> ([Send Processing, Send (AIError e)], self)
              | Response response \<Rightarrow>
                  (let self = self\<lparr>history := add_message (history self) ''assistant'' response later\<rparr>
                   in if str_in ''COMMAND:'' response
                      then (let (calls, self) = handle_command_response w self response
                            in (Send Processing # calls, self))
                      else ([Send Processing, Send (AIAnswer response)], self))))"

text \<open>The five commands of the chat surface.\<close>

datatype event =
    Ask string string completion string
  | Exec string
  | Approve "string option"
  | History
  | Clear

fun handle :: "World \<Rightarrow> DiscordBot \<Rightarrow> event \<Rightarrow> call list \<times> DiscordBot" where
  "handle w self (Ask question now answer later) = ask_ai w self question now answer later"
| "handle w self (Exec command) = execute_with_security_check w self command"
| "handle w self (Approve command_id) = approve_command w self command_id"
| "handle w self History = show_history self"
| "handle w self Clear = clear_history self"

fun handle_all :: "World \<Rightarrow> DiscordBot \<Rightarrow> event list \<Rightarrow> call list \<times> DiscordBot" where
  "handle_all w self [] = ([], self)"
| "handle_all w self (e # es) =
     (let (calls, self) = handle w self e;
          (more_calls, self) = handle_all w self es
      in (calls @ more_calls, self))"

section \<open>Notions used in the statements\<close>

text \<open>
  \<open>contains_ci term text\<close>: some contiguous part of the text equals the term up to the
  case of its letters.
\<close>

definition contains_ci :: "string \<Rightarrow> string \<Rightarrow> bool" where
  "contains_ci term text = (\<exists>pre w post. text = pre @ w @ post \<and> lower w = lower term)"

text \<open>
  \<open>matches p m\<close>: the pattern \<open>p\<close> matches the whole of \<open>m\<close>. It gives \<open>re_search\<close>
  its meaning: some part of the text is matched by the pattern.
\<close>

inductive matches :: "pattern \<Rightarrow> string \<Rightarrow> bool" where
  matches_Nil: "matches [] []"
| matches_One: "in_cls k c \<Longrightarrow> matches p s \<Longrightarrow> matches (One k # p) (c # s)"
| matches_Skip: "matches p s \<Longrightarrow> matches (Many k # p) s"
| matches_Many: "in_cls k c \<Longrightarrow> matches (Many k # p) s \<Longrightarrow> matches (Many k # p) (c # s)"

text \<open>
  What a handler did, read off its calls: the commands handed to the executor, the texts
  handed to the classifier, and the tickets (identifier and command) for which it sent
  an approval prompt.
\<close>

fun executions :: "call list \<Rightarrow> string list" where
  "executions [] = []"
| "executions (ExecuteCommand c # calls) = c # executions calls"
| "executions (call # calls) = executions calls"

fun classifications :: "call list \<Rightarrow> string list" where
  "classifications [] = []"
| "classifications (CheckCommand c # calls) = c # classifications calls"
| "classifications (call # calls) = classifications calls"

fun prompts :: "call list \<Rightarrow> (string \<times> string) list" where
  "prompts [] = []"
| "prompts (Send (ApprovalPrompt cid c v) # calls) = (cid, c) # prompts calls"
| "prompts (call # calls) = prompts calls"

text \<open>
  The two tests of \<^verbatim>\<open>_execute_with_security_check\<close> and the identifier that
  \<^verbatim>\<open>_request_approval\<close> computes.
\<close>

definition too_long :: "DiscordBot \<Rightarrow> string \<Rightarrow> bool" where
  "too_long self command =
     (int (length command) > get_or (cfg_max_command_length (config self)) 1000)"

definition needs_approval :: "DiscordBot \<Rightarrow> string \<Rightarrow> bool" where
  "needs_approval self command =
     (\<not> safe (check_command (security_checker self) command) \<and>
      \<not> get_or (cfg_auto_approve_safe (config self)) False)"

definition ticket_id :: "World \<Rightarrow> string \<Rightarrow> string" where
  "ticket_id w command = take 8 (md5_hexdigest w command)"

text \<open>
  \<open>parks\<close> inserts one ticket for each command of a list, in order. \<open>submitted\<close> lists
  the commands an event hands to the security check.
\<close>

definition parks :: "World \<Rightarrow> string list \<Rightarrow> (string \<rightharpoonup> string) \<Rightarrow> (string \<rightharpoonup> string)" where
  "parks w commands ledger = fold (\<lambda>c m. m(ticket_id w c \<mapsto> c)) commands ledger"

definition asked_commands :: "DiscordBot \<Rightarrow> completion \<Rightarrow> string list" where
  "asked_commands self answer =
     (case answer of
        EngineError e \<Rightarrow> []
      | Response response \<Rightarrow>
          (if cfg_os_type (config self) \<noteq> None \<and> str_in ''COMMAND:'' response
           then extract_commands response else []))"

fun submitted :: "DiscordBot \<Rightarrow> event \<Rightarrow> string list" where
  "submitted self (Exec command) = [command]"
| "submitted self (Ask question now answer later) = asked_commands self answer"
| "submitted self e = []"

section \<open>Defaults and sample inputs\<close>

text \<open>
  \<open>DEFAULT_CONFIG\<close> is the source's dictionary of that name. \<open>sample_world\<close> holds the
  MD5 digests of two commands (any other text gets the digest of the empty text) and the
  endings of four calls of the shell;
  \<open>sample_history\<close> holds 25 entries with the contents \<open>A\<close> to \<open>Y\<close> under a limit of 25.
\<close>

definition DEFAULT_CONFIG :: Config where
  "DEFAULT_CONFIG =
     \<lparr>cfg_os_type = Some ''windows'',
      cfg_message_history_limit = Some 50,
      cfg_dangerous_commands = Some
        [''rm -rf'', ''del /f'', ''format'', ''fdisk'', ''mkfs'', ''dd if='',
         ''shutdown'', ''reboot'', ''halt'', ''poweroff'', ''taskkill /f'',
         ''reg delete'', ''netsh'', ''iptables'', ''chmod 777'', ''chown'',
         ''wget'', ''curl'', ''powershell'', ''cmd'', ''bash'', ''sh''],
      cfg_auto_approve_safe = Some False,
      cfg_max_command_length = Some 1000\<rparr>"

definition sample_world :: World where
  "sample_world =
     \<lparr>md5_hexdigest = (\<lambda>text.
        if text = ''rm -rf /tmp/x'' then ''dbc07450d31d352b0ecacffddac0b8a7''
        else if text = ''dir'' then ''736007832d2167baaae763fd3a3f3cf1''
        else ''d41d8cd98f00b204e9800998ecf8427e''),
      subprocess_run = (\<lambda>command seconds.
        if command = ''dir'' then Completed 0 ''Volume in drive C'' []
        else if command = ''rm -rf /tmp/x'' then Completed 1 [] ''cannot remove''
        else if command = ''ping -t localhost'' then TimeoutExpired
        else Raised ''No such file or directory'')\<rparr>"

definition sample_history :: MessageHistory where
  "sample_history =
     \<lparr>limit = 25,
      messages = map (\<lambda>c. \<lparr>role = ''user'', content = [c], timestamp = ''t''\<rparr>)
        ''ABCDEFGHIJKLMNOPQRSTUVWXY''\<rparr>"

section \<open>The classifier\<close>

inductive_cases matches_ManyE: "matches (Many k # p) m"

lemma str_in_sublist: "str_in needle hay = sublist needle hay"
  by (induction hay) (simp_all add: sublist_Cons_right)

lemma str_in_lower: "str_in (lower d) (lower c) = contains_ci d c"
proof
  assume "str_in (lower d) (lower c)"
  then obtain ps ss where "map lower_char c = ps @ map lower_char d @ ss"
    by (auto simp: str_in_sublist sublist_def lower_def)
  then obtain us vs where c: "c = us @ vs" and "map lower_char d @ ss = map lower_char vs"
    by (auto simp: map_eq_append_conv)
  then obtain w post where "vs = w @ post" "map lower_char d = map lower_char w"
    by (auto simp: append_eq_map_conv)
  with c have "c = us @ w @ post \<and> lower w = lower d"
    by (simp add: lower_def)
  then show "contains_ci d c"
    unfolding contains_ci_def by blast
next
  assume "contains_ci d c"
  then obtain pre w post where "c = pre @ w @ post" "lower w = lower d"
    unfolding contains_ci_def by blast
  then have "lower c = lower pre @ lower d @ lower post"
    by (simp add: lower_def)
  then show "str_in (lower d) (lower c)"
    by (simp add: str_in_sublist)
qed

lemma match_here_matches: "match_here p s = (\<exists>m rest. s = m @ rest \<and> matches p m)"
proof (induction p s rule: match_here.induct)
  case (1 s)
  show ?case by (auto intro: matches.intros exI[of _ "[]"])
next
  case (2 k p)
  show ?case by (auto elim: matches.cases)
next
  case (3 k p c s)
  show ?case
  proof
    assume "match_here (One k # p) (c # s)"
    with 3 obtain m rest where "in_cls k c" "s = m @ rest" "matches p m" by auto
    then have "c # s = (c # m) @ rest \<and> matches (One k # p) (c # m)"
      by (simp add: matches_One)
    then show "\<exists>m rest. c # s = m @ rest \<and> matches (One k # p) m" by blast
  next
    assume "\<exists>m rest. c # s = m @ rest \<and> matches (One k # p) m"
    then obtain m rest where m: "c # s = m @ rest" "matches (One k # p) m" by blast
    from m(2) obtain c' m' where "m = c' # m'" "in_cls k c'" "matches p m'"
      by (auto elim: matches.cases)
    with m(1) 3 show "match_here (One k # p) (c # s)" by auto
  qed
next
  case (4 k p)
  have "matches (Many k # p) [] = matches p []"
    by (auto elim: matches.cases intro: matches_Skip)
  with 4 show ?case by simp
next
  case (5 k p c s)
  show ?case
  proof
    assume "match_here (Many k # p) (c # s)"
    then consider "match_here p (c # s)" | "in_cls k c" "match_here (Many k # p) s" by auto
    then show "\<exists>m rest. c # s = m @ rest \<and> matches (Many k # p) m"
    proof cases
      case 1
      with 5 obtain m rest where "c # s = m @ rest" "matches p m" by auto
      then show ?thesis by (blast intro: matches_Skip)
    next
      case 2
      with 5 obtain m rest where "s = m @ rest" "matches (Many k # p) m" by auto
      with 2 have "c # s = (c # m) @ rest \<and> matches (Many k # p) (c # m)"
        by (simp add: matches_Many)
      then show ?thesis by blast
    qed
  next
    assume "\<exists>m rest. c # s = m @ rest \<and> matches (Many k # p) m"
    then obtain m rest where m: "c # s = m @ rest" "matches (Many k # p) m" by blast
    from m(2) show "match_here (Many k # p) (c # s)"
    proof (rule matches_ManyE)
      assume "matches p m"
      with m(1) have "\<exists>m rest. c # s = m @ rest \<and> matches p m" by blast
      with 5(1) show ?thesis by simp
    next
      fix c' s'
      assume "m = c' # s'" "in_cls k c'" "matches (Many k # p) s'"
      with m(1) have "in_cls k c \<and> (\<exists>m rest. s = m @ rest \<and> matches (Many k # p) m)" by auto
      with 5(2) show ?thesis by simp
    qed
  qed
qed

lemma re_search_matches: "re_search p s = (\<exists>pre m post. s = pre @ m @ post \<and> matches p m)"
proof (induction s)
  case Nil
  show ?case by (simp add: match_here_matches)
next
  case (Cons c s)
  show ?case
  proof
    assume "re_search p (c # s)"
    then consider "match_here p (c # s)" | "re_search p s" by auto
    then show "\<exists>pre m post. c # s = pre @ m @ post \<and> matches p m"
    proof cases
      case 1
      then obtain m rest where "c # s = [] @ m @ rest \<and> matches p m"
        by (auto simp: match_here_matches)
      then show ?thesis by blast
    next
      case 2
      with Cons obtain pre m post where "s = pre @ m @ post" "matches p m" by auto
      then have "c # s = (c # pre) @ m @ post \<and> matches p m" by simp
      then show ?thesis by blast
    qed
  next
    assume "\<exists>pre m post. c # s = pre @ m @ post \<and> matches p m"
    then obtain pre m post where m: "c # s = pre @ m @ post" "matches p m" by blast
    show "re_search p (c # s)"
    proof (cases pre)
      case Nil
      with m have "match_here p (c # s)" by (auto simp: match_here_matches)
      then show ?thesis by simp
    next
      case (Cons a pre')
      with m have "s = pre' @ m @ post" by simp
      with m(2) Cons.IH have "re_search p s" by blast
      then show ?thesis by simp
    qed
  qed
qed

lemma fold_dangerous_safe:
  "safe (fold (dangerous_step cl) ds r) = (safe r \<and> \<not> (\<exists>d \<in> set ds. str_in (lower d) cl))"
  by (induction ds arbitrary: r) (auto simp: dangerous_step_def)

lemma fold_dangerous_parts:
  "dangerous_parts (fold (dangerous_step cl) ds r) =
     dangerous_parts r @ filter (\<lambda>d. str_in (lower d) cl) ds"
  by (induction ds arbitrary: r) (auto simp: dangerous_step_def)


lemma fold_dangerous_risk: "risk_level (fold (dangerous_step cl) ds r) = risk_level r"
  by (induction ds arbitrary: r) (auto simp: dangerous_step_def)

lemma fold_pattern_safe:
  "safe (fold (pattern_step c) ps r) = (safe r \<and> \<not> (\<exists>p \<in> set ps. re_search p c))"
  by (induction ps arbitrary: r) (auto simp: pattern_step_def)

lemma fold_pattern_parts: "dangerous_parts (fold (pattern_step c) ps r) = dangerous_parts r"
  by (induction ps arbitrary: r) (auto simp: pattern_step_def)


lemma fold_pattern_risk: "risk_level (fold (pattern_step c) ps r) = risk_level r"
  by (induction ps arbitrary: r) (auto simp: pattern_step_def)

lemma assign_risk_fields:
  "safe (assign_risk r) = safe r"
  "warnings (assign_risk r) = warnings r"
  "dangerous_parts (assign_risk r) = dangerous_parts r"
  by (simp_all add: assign_risk_def)

lemma check_command_safe:
  "safe (check_command self c) =
     (\<not> (\<exists>d \<in> set (dangerous_commands self). contains_ci d c) \<and>
      \<not> (\<exists>p \<in> set (suspicious_patterns self). re_search p c))"
  by (simp add: check_command_def Let_def assign_risk_fields fold_pattern_safe
      fold_dangerous_safe str_in_lower)

lemma check_command_parts:
  "dangerous_parts (check_command self c) =
     filter (\<lambda>d. contains_ci d c) (dangerous_commands self)"
  by (simp add: check_command_def Let_def assign_risk_fields fold_pattern_parts
      fold_dangerous_parts str_in_lower)


lemma check_command_risk:
  "risk_level (check_command self c) =
     (if length (filter (\<lambda>d. contains_ci d c) (dangerous_commands self)) > 2 then ''high''
      else if length (filter (\<lambda>d. contains_ci d c) (dangerous_commands self)) > 0
      then ''medium'' else ''low'')"
  by (simp add: check_command_def Let_def assign_risk_def fold_pattern_parts
      fold_dangerous_parts fold_pattern_risk fold_dangerous_risk str_in_lower)


lemma spec_example_rm_rf:
  "check_command (SecurityChecker_init [''rm -rf'']) ''please rm -rf /tmp'' =
     \<lparr>safe = False, warnings = [DangerousWarning ''rm -rf''],
      dangerous_parts = [''rm -rf''], risk_level = ''medium''\<rparr>"
  by code_simp

lemma spec_example_pipe:
  "check_command (SecurityChecker_init []) ''echo hello | cat'' =
     \<lparr>safe = False, warnings = [PatternWarning pipe_chain],
      dangerous_parts = [], risk_level = ''low''\<rparr>"
  by code_simp



text \<open>
  Claim C4. The risk level depends on the number of configured dangerous terms the text
  contains and on nothing else: none gives \<open>low\<close>, one or two give \<open>medium\<close>, more than
  two give \<open>high\<close>. The suspicious patterns play no part in it, so a text that matches a
  pattern and contains no term is unsafe at the risk level \<open>low\<close>.
\<close>

theorem risk_level_by_count:
  "risk_level (check_command self c) =
     (let n = length (filter (\<lambda>d. contains_ci d c) (dangerous_commands self))
      in if n = 0 then ''low'' else if n \<le> 2 then ''medium'' else ''high'') \<and>
   length (dangerous_parts (check_command self c)) =
     length (filter (\<lambda>d. contains_ci d c) (dangerous_commands self)) \<and>
   risk_level (check_command (self\<lparr>suspicious_patterns := ps\<rparr>) c) =
     risk_level (check_command self c) \<and>
   ((\<forall>d \<in> set (dangerous_commands self). \<not> contains_ci d c) \<and>
    (\<exists>p \<in> set (suspicious_patterns self). re_search p c) \<longrightarrow>
      safe (check_command self c) = False \<and> risk_level (check_command self c) = ''low'')"
proof (intro conjI)
  show "risk_level (check_command self c) =
     (let n = length (filter (\<lambda>d. contains_ci d c) (dangerous_commands self))
      in if n = 0 then ''low'' else if n \<le> 2 then ''medium'' else ''high'')"
    by (auto simp: check_command_risk Let_def)
  show "length (dangerous_parts (check_command self c)) =
     length (filter (\<lambda>d. contains_ci d c) (dangerous_commands self))"
    by (simp add: check_command_parts)
  show "risk_level (check_command (self\<lparr>suspicious_patterns := ps\<rparr>) c) =
     risk_level (check_command self c)"
    by (simp add: check_command_risk)
  show "(\<forall>d \<in> set (dangerous_commands self). \<not> contains_ci d c) \<and>
    (\<exists>p \<in> set (suspicious_patterns self). re_search p c) \<longrightarrow>
      safe (check_command self c) = False \<and> risk_level (check_command self c) = ''low''"
  proof
    assume h: "(\<forall>d \<in> set (dangerous_commands self). \<not> contains_ci d c) \<and>
      (\<exists>p \<in> set (suspicious_patterns self). re_search p c)"
    then have "filter (\<lambda>d. contains_ci d c) (dangerous_commands self) = []"
      by (simp add: filter_empty_conv)
    with h show "safe (check_command self c) = False \<and> risk_level (check_command self c) = ''low''"
      by (simp add: check_command_safe check_command_risk)
  qed
qed

theorem risk_level_by_count_witness:
  "(\<exists>p \<in> set (suspicious_patterns (SecurityChecker_init [])). re_search p ''echo hello | cat'') \<and>
   safe (check_command (SecurityChecker_init []) ''echo hello | cat'') = False \<and>
   risk_level (check_command (SecurityChecker_init []) ''echo hello | cat'') = ''low'' \<and>
   dangerous_parts (check_command (SecurityChecker_init []) ''echo hello | cat'') = []"
proof -
  let ?sc = "SecurityChecker_init []"
  have d: "dangerous_commands ?sc = []"
    by (simp add: SecurityChecker_init_def)
  have p: "\<exists>p \<in> set (suspicious_patterns ?sc). re_search p ''echo hello | cat''"
    by code_simp
  from risk_level_by_count [of ?sc "''echo hello | cat''"] d p
  have "safe (check_command ?sc ''echo hello | cat'') = False \<and>
        risk_level (check_command ?sc ''echo hello | cat'') = ''low'' \<and>
        length (dangerous_parts (check_command ?sc ''echo hello | cat'')) = 0"
    by auto
  with p show ?thesis by simp
qed

section \<open>The security check\<close>

lemma executions_directly [simp]:
  "executions (fst (execute_command_directly w self c)) = [c]"
  "prompts (fst (execute_command_directly w self c)) = []"
  "classifications (fst (execute_command_directly w self c)) = []"
  "snd (execute_command_directly w self c) = self"
  by (simp_all add: execute_command_directly_def Let_def split: exec_result.splits)

lemma request_approval_fields [simp]:
  "fst (request_approval w self c v) = [Send (ApprovalPrompt (ticket_id w c) c v)]"
  "snd (request_approval w self c v) =
     self\<lparr>pending_commands := (pending_commands self)(ticket_id w c \<mapsto> c)\<rparr>"
  by (simp_all add: request_approval_def ticket_id_def Let_def)

lemma check_too_long:
  "too_long self c \<Longrightarrow> execute_with_security_check w self c = ([Send TooLong], self)"
  by (simp add: execute_with_security_check_def too_long_def)

lemma check_park:
  "\<not> too_long self c \<Longrightarrow> needs_approval self c \<Longrightarrow>
   execute_with_security_check w self c =
     ([CheckCommand c,
       Send (ApprovalPrompt (ticket_id w c) c (check_command (security_checker self) c))],
      self\<lparr>pending_commands := (pending_commands self)(ticket_id w c \<mapsto> c)\<rparr>)"
  by (simp add: execute_with_security_check_def too_long_def needs_approval_def
      request_approval_def ticket_id_def Let_def)

lemma check_run:
  "\<not> too_long self c \<Longrightarrow> \<not> needs_approval self c \<Longrightarrow>
   execute_with_security_check w self c =
     (CheckCommand c # fst (execute_command_directly w self c), self)"
  by (auto simp: execute_with_security_check_def too_long_def needs_approval_def
      Let_def split: prod.splits)
    (simp_all add: execute_command_directly_def Let_def)

lemma check_cases:
  assumes "\<not> too_long self command"
  shows
    "(needs_approval self command \<longrightarrow>
        prompts (fst (execute_with_security_check w self command)) =
          [(ticket_id w command, command)] \<and>
        pending_commands (snd (execute_with_security_check w self command)) =
          (pending_commands self)(ticket_id w command \<mapsto> command) \<and>
        executions (fst (execute_with_security_check w self command)) = []) \<and>
     (\<not> needs_approval self command \<longrightarrow>
        executions (fst (execute_with_security_check w self command)) = [command] \<and>
        prompts (fst (execute_with_security_check w self command)) = [] \<and>
        snd (execute_with_security_check w self command) = self)"
proof (cases "needs_approval self command")
  case True
  with assms show ?thesis by (simp add: check_park)
next
  case False
  with assms show ?thesis by (simp add: check_run)
qed

text \<open>
  Claim C1. For a command no longer than the configured maximum, the security check
  sends an approval prompt and stores the ticket, executing nothing, exactly when the
  classifier finds the command unsafe and automatic approval is off; otherwise it hands
  the command to the executor and leaves the bot, its ledger included, as it was.
\<close>

theorem check_decision:
  assumes "int (length command) \<le> get_or (cfg_max_command_length (config self)) 1000"
  shows
    "(let unsafe = \<not> safe (check_command (security_checker self) command);
          auto_approve = get_or (cfg_auto_approve_safe (config self)) False;
          calls = fst (execute_with_security_check w self command);
          after = snd (execute_with_security_check w self command)
      in (unsafe \<and> \<not> auto_approve \<longrightarrow>
            prompts calls = [(take 8 (md5_hexdigest w command), command)] \<and>
            pending_commands after =
              (pending_commands self)(take 8 (md5_hexdigest w command) \<mapsto> command) \<and>
            executions calls = []) \<and>
         (\<not> (unsafe \<and> \<not> auto_approve) \<longrightarrow>
            executions calls = [command] \<and> prompts calls = [] \<and> after = self) \<and>
         (prompts calls \<noteq> [] \<longleftrightarrow> unsafe \<and> \<not> auto_approve) \<and>
         (executions calls \<noteq> [] \<longleftrightarrow> \<not> (unsafe \<and> \<not> auto_approve)))"
proof -
  from assms have short: "\<not> too_long self command"
    by (simp add: too_long_def)
  have cond: "(\<not> safe (check_command (security_checker self) command) \<and>
      \<not> get_or (cfg_auto_approve_safe (config self)) False) = needs_approval self command"
    by (simp add: needs_approval_def)
  show ?thesis
    unfolding Let_def cond ticket_id_def [symmetric]
    using check_cases [OF short, of w] by (cases "needs_approval self command") simp_all
qed

lemma default_bot_config: "config (DiscordBot_init DEFAULT_CONFIG) = DEFAULT_CONFIG"
  by (simp add: DiscordBot_init_def)

lemma default_max_length:
  "get_or (cfg_max_command_length (config (DiscordBot_init DEFAULT_CONFIG))) 1000 = 1000"
  by (simp add: DiscordBot_init_def DEFAULT_CONFIG_def)

lemma sample_needs_approval: "needs_approval (DiscordBot_init DEFAULT_CONFIG) ''rm -rf /tmp/x''"
  by code_simp

lemma sample_runs_directly: "\<not> needs_approval (DiscordBot_init DEFAULT_CONFIG) ''dir''"
  by code_simp

lemma sample_ticket_id: "ticket_id sample_world ''rm -rf /tmp/x'' = ''dbc07450''"
  by code_simp

theorem check_decision_witness:
  "int (length ''rm -rf /tmp/x'') \<le>
     get_or (cfg_max_command_length (config (DiscordBot_init DEFAULT_CONFIG))) 1000 \<and>
   \<not> safe (check_command (security_checker (DiscordBot_init DEFAULT_CONFIG))
     ''rm -rf /tmp/x'') \<and>
   \<not> get_or (cfg_auto_approve_safe (config (DiscordBot_init DEFAULT_CONFIG))) False \<and>
   prompts (fst (execute_with_security_check sample_world (DiscordBot_init DEFAULT_CONFIG)
     ''rm -rf /tmp/x'')) = [(''dbc07450'', ''rm -rf /tmp/x'')] \<and>
   executions (fst (execute_with_security_check sample_world (DiscordBot_init DEFAULT_CONFIG)
     ''rm -rf /tmp/x'')) = [] \<and>
   safe (check_command (security_checker (DiscordBot_init DEFAULT_CONFIG)) ''dir'') \<and>
   executions (fst (execute_with_security_check sample_world (DiscordBot_init DEFAULT_CONFIG)
     ''dir'')) = [''dir''] \<and>
   prompts (fst (execute_with_security_check sample_world (DiscordBot_init DEFAULT_CONFIG)
     ''dir'')) = []"
proof -
  let ?bot = "DiscordBot_init DEFAULT_CONFIG"
  have a: "int (length ''rm -rf /tmp/x'') \<le> get_or (cfg_max_command_length (config ?bot)) 1000"
    by (simp add: default_max_length)
  have b: "int (length ''dir'') \<le> get_or (cfg_max_command_length (config ?bot)) 1000"
    by (simp add: default_max_length)
  have off: "\<not> get_or (cfg_auto_approve_safe (config ?bot)) False"
    by (simp add: DiscordBot_init_def DEFAULT_CONFIG_def)
  from sample_needs_approval
  have unsafe: "\<not> safe (check_command (security_checker ?bot) ''rm -rf /tmp/x'')"
    by (simp add: needs_approval_def)
  from sample_runs_directly off
  have harmless: "safe (check_command (security_checker ?bot) ''dir'')"
    by (simp add: needs_approval_def)
  from check_decision [OF a, of sample_world] unsafe off
  have "prompts (fst (execute_with_security_check sample_world ?bot ''rm -rf /tmp/x'')) =
      [(take 8 (md5_hexdigest sample_world ''rm -rf /tmp/x''), ''rm -rf /tmp/x'')] \<and>
    executions (fst (execute_with_security_check sample_world ?bot ''rm -rf /tmp/x'')) = []"
    unfolding Let_def by blast
  moreover from check_decision [OF b, of sample_world] harmless
  have "executions (fst (execute_with_security_check sample_world ?bot ''dir'')) = [''dir''] \<and>
    prompts (fst (execute_with_security_check sample_world ?bot ''dir'')) = []"
    unfolding Let_def by blast
  moreover have "take 8 (md5_hexdigest sample_world ''rm -rf /tmp/x'') = ''dbc07450''"
    using sample_ticket_id by (simp add: ticket_id_def)
  ultimately show ?thesis
    using a off unsafe harmless by simp
qed

text \<open>
  Claim C5. A command longer than the configured maximum is rejected at once: the only
  call is the message that it is too long, so the classifier is not called, no ticket is
  made, nothing is executed, and the bot, its ledger included, is unchanged.
\<close>

theorem too_long_rejected:
  assumes "int (length command) > get_or (cfg_max_command_length (config self)) 1000"
  shows
    "execute_with_security_check w self command = ([Send TooLong], self) \<and>
     classifications (fst (execute_with_security_check w self command)) = [] \<and>
     prompts (fst (execute_with_security_check w self command)) = [] \<and>
     executions (fst (execute_with_security_check w self command)) = [] \<and>
     pending_commands (snd (execute_with_security_check w self command)) =
       pending_commands self"
proof -
  from assms have "execute_with_security_check w self command = ([Send TooLong], self)"
    by (simp add: check_too_long too_long_def)
  then show ?thesis by simp
qed

theorem too_long_rejected_witness:
  "int (length (replicate 1001 (CHR ''a''))) >
     get_or (cfg_max_command_length (config (DiscordBot_init DEFAULT_CONFIG))) 1000 \<and>
   execute_with_security_check sample_world (DiscordBot_init DEFAULT_CONFIG)
     (replicate 1001 (CHR ''a'')) = ([Send TooLong], DiscordBot_init DEFAULT_CONFIG)"
proof -
  let ?bot = "DiscordBot_init DEFAULT_CONFIG"
  have a: "int (length (replicate 1001 (CHR ''a''))) >
      get_or (cfg_max_command_length (config ?bot)) 1000"
    by (simp add: default_max_length)
  from too_long_rejected [OF a, of sample_world]
  have "execute_with_security_check sample_world ?bot (replicate 1001 (CHR ''a'')) =
      ([Send TooLong], ?bot)"
    by blast
  with a show ?thesis by blast
qed

section \<open>The ledger\<close>

lemma check_frame [simp]:
  "config (snd (execute_with_security_check w self c)) = config self"
  "security_checker (snd (execute_with_security_check w self c)) = security_checker self"
  "history (snd (execute_with_security_check w self c)) = history self"
  "executor (snd (execute_with_security_check w self c)) = executor self"
  by (cases "too_long self c"; cases "needs_approval self c";
      simp add: check_too_long check_park check_run)+

lemma check_pending:
  "pending_commands (snd (execute_with_security_check w self c)) =
     (if \<not> too_long self c \<and> needs_approval self c
      then (pending_commands self)(ticket_id w c \<mapsto> c) else pending_commands self)"
  by (cases "too_long self c"; cases "needs_approval self c";
      simp add: check_too_long check_park check_run)

lemma needs_approval_cong:
  "config a = config b \<Longrightarrow> security_checker a = security_checker b \<Longrightarrow>
   needs_approval a = needs_approval b"
  by (rule ext) (simp add: needs_approval_def)

lemma too_long_cong: "config a = config b \<Longrightarrow> too_long a = too_long b"
  by (rule ext) (simp add: too_long_def)

lemma check_all_frame [simp]:
  "config (snd (check_all w self cs)) = config self"
  "security_checker (snd (check_all w self cs)) = security_checker self"
  "history (snd (check_all w self cs)) = history self"
  "executor (snd (check_all w self cs)) = executor self"
  by (induction cs arbitrary: self; simp add: split_beta Let_def)+

lemma parks_Cons:
  "parks w (c # cs) m = parks w cs (m(ticket_id w c \<mapsto> c))"
  by (simp add: parks_def)

lemma check_all_pending:
  "pending_commands (snd (check_all w self cs)) =
     parks w (filter (\<lambda>c. \<not> too_long self c \<and> needs_approval self c) cs)
       (pending_commands self)"
proof (induction cs arbitrary: self)
  case Nil
  show ?case by (simp add: parks_def)
next
  case (Cons c cs)
  let ?s = "snd (execute_with_security_check w self c)"
  let ?P = "\<lambda>s c. \<not> too_long s c \<and> needs_approval s c"
  have same: "?P ?s = ?P self"
    by (simp add: needs_approval_cong [of ?s self] too_long_cong [of ?s self])
  have "pending_commands (snd (check_all w self (c # cs))) =
        pending_commands (snd (check_all w ?s cs))"
    by (simp add: split_beta Let_def)
  also have "\<dots> = parks w (filter (?P ?s) cs) (pending_commands ?s)"
    by (rule Cons)
  also have "\<dots> = parks w (filter (?P self) cs) (pending_commands ?s)"
    by (simp only: same)
  also have "\<dots> = parks w (filter (?P self) (c # cs)) (pending_commands self)"
    by (simp add: check_pending parks_Cons)
  finally show ?case .
qed

lemma approve_not_found:
  "command_id = None \<or> command_id = Some [] \<or>
     (\<exists>cid. command_id = Some cid \<and> pending_commands self cid = None) \<Longrightarrow>
   approve_command w self command_id = ([Send NotFound], self)"
  by (auto simp: approve_command_def)

lemma approve_present:
  "cid \<noteq> [] \<Longrightarrow> pending_commands self cid = Some c \<Longrightarrow>
   approve_command w self (Some cid) =
     (fst (execute_command_directly w self c),
      self\<lparr>pending_commands := (pending_commands self)(cid := None)\<rparr>)"
  by (simp add: approve_command_def execute_command_directly_def Let_def)

lemma response_frame [simp]:
  "config (snd (handle_command_response w self r)) = config self"
  "security_checker (snd (handle_command_response w self r)) = security_checker self"
  "history (snd (handle_command_response w self r)) = history self"
  "executor (snd (handle_command_response w self r)) = executor self"
  by (simp_all add: handle_command_response_def Let_def split_beta)

lemma response_pending:
  "pending_commands (snd (handle_command_response w self r)) =
     parks w (filter (\<lambda>c. \<not> too_long self c \<and> needs_approval self c) (extract_commands r))
       (pending_commands self)"
  by (simp add: handle_command_response_def Let_def split_beta check_all_pending)

lemma ask_frame [simp]:
  "config (snd (ask_ai w self q now answer later)) = config self"
  "security_checker (snd (ask_ai w self q now answer later)) = security_checker self"
  "executor (snd (ask_ai w self q now answer later)) = executor self"
  by (cases "cfg_os_type (config self)"; cases answer;
      simp add: ask_ai_def Let_def split_beta)+

lemma ask_pending:
  "pending_commands (snd (ask_ai w self q now answer later)) =
     parks w (filter (\<lambda>c. \<not> too_long self c \<and> needs_approval self c)
       (asked_commands self answer)) (pending_commands self)"
proof -
  let ?P = "\<lambda>s c. \<not> too_long s c \<and> needs_approval s c"
  have same: "?P (self\<lparr>history := h\<rparr>) = ?P self" for h
    by (simp add: needs_approval_cong [of "self\<lparr>history := h\<rparr>" self]
        too_long_cong [of "self\<lparr>history := h\<rparr>" self])
  show ?thesis
  proof (cases "cfg_os_type (config self)")
    case None
    then show ?thesis
      by (cases answer) (simp_all add: ask_ai_def asked_commands_def Let_def parks_def)
  next
    case (Some os)
    show ?thesis
    proof (cases answer)
      case (EngineError e)
      with Some show ?thesis
        by (simp add: ask_ai_def asked_commands_def Let_def parks_def)
    next
      case (Response r)
      show ?thesis
      proof (cases "str_in ''COMMAND:'' r")
        case True
        with Some Response show ?thesis
          by (simp add: ask_ai_def asked_commands_def Let_def split_beta response_pending
              same del: str_in.simps)
      next
        case False
        with Some Response show ?thesis
          by (simp add: ask_ai_def asked_commands_def Let_def parks_def del: str_in.simps)
      qed
    qed
  qed
qed

lemma approve_frame [simp]:
  "config (snd (approve_command w self cid)) = config self"
  "security_checker (snd (approve_command w self cid)) = security_checker self"
  "executor (snd (approve_command w self cid)) = executor self"
  "history (snd (approve_command w self cid)) = history self"
  by (simp_all add: approve_command_def split: option.splits)

lemma handle_frame [simp]:
  "config (snd (handle w self e)) = config self"
  "security_checker (snd (handle w self e)) = security_checker self"
  "executor (snd (handle w self e)) = executor self"
  by (cases e; simp add: show_history_def clear_history_def Let_def)+

lemma handle_all_frame [simp]:
  "config (snd (handle_all w self es)) = config self"
  "security_checker (snd (handle_all w self es)) = security_checker self"
  "executor (snd (handle_all w self es)) = executor self"
  by (induction es arbitrary: self; simp add: split_beta Let_def)+

lemma dom_parks: "dom (parks w cs m) = dom m \<union> ticket_id w ` set cs"
  by (induction cs arbitrary: m) (auto simp: parks_def)

lemma submitted_cong: "config a = config b \<Longrightarrow> submitted a e = submitted b e"
  by (cases e) (simp_all add: asked_commands_def split: completion.splits)

lemma handle_pending:
  "pending_commands (snd (handle w self e)) =
     (case e of
        Approve command_id \<Rightarrow>
          (case command_id of
             None \<Rightarrow> pending_commands self
           | Some cid \<Rightarrow>
               (if cid \<noteq> [] \<and> pending_commands self cid \<noteq> None
                then (pending_commands self)(cid := None) else pending_commands self))
      | _ \<Rightarrow>
          parks w (filter (\<lambda>c. \<not> too_long self c \<and> needs_approval self c) (submitted self e))
            (pending_commands self))"
proof (cases e)
  case (Ask q now answer later)
  then show ?thesis by (simp add: ask_pending)
next
  case (Exec c)
  then show ?thesis by (simp add: check_pending parks_def)
next
  case (Approve command_id)
  then show ?thesis
    by (auto simp: approve_command_def split: option.splits)
next
  case History
  then show ?thesis by (simp add: show_history_def Let_def parks_def)
next
  case Clear
  then show ?thesis by (simp add: clear_history_def parks_def)
qed

lemma handle_dom:
  "dom (pending_commands (snd (handle w self e))) \<subseteq>
     dom (pending_commands self) \<union> ticket_id w ` set (submitted self e)"
proof (cases e)
  case (Approve command_id)
  with handle_pending [of w self e] show ?thesis
    by (auto split: option.splits if_splits)
next
  case (Ask q now answer later)
  with handle_pending [of w self e] show ?thesis by (auto simp: dom_parks)
next
  case (Exec c)
  with handle_pending [of w self e] show ?thesis by (auto simp: dom_parks)
next
  case History
  with handle_pending [of w self e] show ?thesis by (auto simp: dom_parks)
next
  case Clear
  with handle_pending [of w self e] show ?thesis by (auto simp: dom_parks)
qed

lemma handle_all_dom:
  "dom (pending_commands (snd (handle_all w self es))) \<subseteq>
     dom (pending_commands self) \<union> ticket_id w ` (\<Union>e \<in> set es. set (submitted self e))"
proof (induction es arbitrary: self)
  case Nil
  show ?case by simp
next
  case (Cons e es)
  let ?s = "snd (handle w self e)"
  have sub: "submitted ?s = submitted self"
    by (rule ext) (simp add: submitted_cong [of ?s self])
  have "dom (pending_commands (snd (handle_all w self (e # es)))) =
        dom (pending_commands (snd (handle_all w ?s es)))"
    by (simp add: split_beta Let_def)
  also have "\<dots> \<subseteq> dom (pending_commands ?s) \<union>
      ticket_id w ` (\<Union>e \<in> set es. set (submitted ?s e))"
    by (rule Cons)
  also have "\<dots> \<subseteq> dom (pending_commands self) \<union>
      ticket_id w ` (\<Union>e \<in> set (e # es). set (submitted self e))"
    using handle_dom [of w self e] by (auto simp: sub)
  finally show ?case .
qed

lemma park_then_approve:
  assumes "md5_hexdigest w command \<noteq> []"
  shows "approve_command w (snd (request_approval w self command verdict))
           (Some (ticket_id w command)) =
         (fst (execute_command_directly w
            (self\<lparr>pending_commands := (pending_commands self)(ticket_id w command \<mapsto> command)\<rparr>)
            command),
          self\<lparr>pending_commands := (pending_commands self)(ticket_id w command := None)\<rparr>)"
proof -
  from assms have nonempty: "ticket_id w command \<noteq> []"
    by (simp add: ticket_id_def)
  show ?thesis
    by (subst approve_present [where c = command]) (simp_all add: nonempty)
qed

lemma approve_fresh_run:
  assumes "cid \<notin> ticket_id w ` (\<Union>e \<in> set es. set (submitted (DiscordBot_init cfg) e))"
  shows "approve_command w (snd (handle_all w (DiscordBot_init cfg) es)) (Some cid) =
          ([Send NotFound], snd (handle_all w (DiscordBot_init cfg) es))"
proof -
  have "dom (pending_commands (DiscordBot_init cfg)) = {}"
    by (simp add: DiscordBot_init_def)
  with handle_all_dom [of w "DiscordBot_init cfg" es]
  have "dom (pending_commands (snd (handle_all w (DiscordBot_init cfg) es))) \<subseteq>
      ticket_id w ` (\<Union>e \<in> set es. set (submitted (DiscordBot_init cfg) e))"
    by simp
  with assms have "cid \<notin> dom (pending_commands (snd (handle_all w (DiscordBot_init cfg) es)))"
    by (rule contra_subsetD [rotated])
  then have "pending_commands (snd (handle_all w (DiscordBot_init cfg) es)) cid = None"
    by (simp add: domIff)
  then show ?thesis
    by (intro approve_not_found) simp
qed

text \<open>
  Claim C3. Parking a command and then approving the identifier of its ticket executes
  that command and removes the ticket; approving the same identifier again answers that
  the command was not found, and so does approving an identifier the ledger does not
  hold, in particular, in a bot started afresh, any identifier under which no command
  was ever submitted. The digest of a text is assumed non-empty, as a hexadecimal MD5
  digest is.
\<close>

theorem park_resolve_once:
  assumes "md5_hexdigest w command \<noteq> []"
  shows
    "(let cid = ticket_id w command;
          parked = snd (request_approval w self command verdict);
          first = approve_command w parked (Some cid);
          second = approve_command w (snd first) (Some cid)
      in pending_commands parked cid = Some command \<and>
         executions (fst first) = [command] \<and>
         pending_commands (snd first) = (pending_commands self)(cid := None) \<and>
         second = ([Send NotFound], snd first)) \<and>
     (\<forall>cid. pending_commands self cid = None \<longrightarrow>
        approve_command w self (Some cid) = ([Send NotFound], self)) \<and>
     (\<forall>cfg es cid.
        cid \<notin> ticket_id w ` (\<Union>e \<in> set es. set (submitted (DiscordBot_init cfg) e)) \<longrightarrow>
        approve_command w (snd (handle_all w (DiscordBot_init cfg) es)) (Some cid) =
          ([Send NotFound], snd (handle_all w (DiscordBot_init cfg) es)))"
proof (intro conjI allI impI)
  let ?cid = "ticket_id w command"
  let ?resolved = "self\<lparr>pending_commands := (pending_commands self)(?cid := None)\<rparr>"
  have second: "approve_command w ?resolved (Some ?cid) = ([Send NotFound], ?resolved)"
    by (rule approve_not_found) simp
  show "let cid = ticket_id w command;
          parked = snd (request_approval w self command verdict);
          first = approve_command w parked (Some cid);
          second = approve_command w (snd first) (Some cid)
      in pending_commands parked cid = Some command \<and>
         executions (fst first) = [command] \<and>
         pending_commands (snd first) = (pending_commands self)(cid := None) \<and>
         second = ([Send NotFound], snd first)"
    unfolding Let_def park_then_approve [OF assms]
    by (simp add: second)
next
  fix cid
  assume "pending_commands self cid = None"
  then show "approve_command w self (Some cid) = ([Send NotFound], self)"
    by (intro approve_not_found) simp
next
  fix cfg es cid
  assume "cid \<notin> ticket_id w ` (\<Union>e \<in> set es. set (submitted (DiscordBot_init cfg) e))"
  then show "approve_command w (snd (handle_all w (DiscordBot_init cfg) es)) (Some cid) =
          ([Send NotFound], snd (handle_all w (DiscordBot_init cfg) es))"
    by (rule approve_fresh_run)
qed

lemma sample_other_id:
  "''dbc07450'' \<notin> ticket_id sample_world `
     (\<Union>e \<in> set [Exec ''dir'']. set (submitted (DiscordBot_init DEFAULT_CONFIG) e))"
  by (simp add: ticket_id_def sample_world_def)

theorem park_resolve_once_witness:
  "md5_hexdigest sample_world ''rm -rf /tmp/x'' \<noteq> [] \<and>
   executions (fst (approve_command sample_world
     (snd (request_approval sample_world (DiscordBot_init DEFAULT_CONFIG) ''rm -rf /tmp/x''
        (check_command (security_checker (DiscordBot_init DEFAULT_CONFIG)) ''rm -rf /tmp/x'')))
     (Some ''dbc07450''))) = [''rm -rf /tmp/x''] \<and>
   fst (approve_command sample_world
     (snd (approve_command sample_world
       (snd (request_approval sample_world (DiscordBot_init DEFAULT_CONFIG) ''rm -rf /tmp/x''
          (check_command (security_checker (DiscordBot_init DEFAULT_CONFIG)) ''rm -rf /tmp/x'')))
       (Some ''dbc07450'')))
     (Some ''dbc07450'')) = [Send NotFound] \<and>
   pending_commands (DiscordBot_init DEFAULT_CONFIG) ''0badc0de'' = None \<and>
   fst (approve_command sample_world (DiscordBot_init DEFAULT_CONFIG) (Some ''0badc0de'')) =
     [Send NotFound] \<and>
   fst (approve_command sample_world
     (snd (handle_all sample_world (DiscordBot_init DEFAULT_CONFIG) [Exec ''dir'']))
     (Some ''dbc07450'')) = [Send NotFound]"
proof -
  let ?bot = "DiscordBot_init DEFAULT_CONFIG"
  have a: "md5_hexdigest sample_world ''rm -rf /tmp/x'' \<noteq> []"
    by (simp add: sample_world_def)
  have b: "pending_commands ?bot ''0badc0de'' = None"
    by (simp add: DiscordBot_init_def)
  note inst = park_resolve_once [OF a, of ?bot
      "check_command (security_checker ?bot) ''rm -rf /tmp/x''"]
  from inst have "executions (fst (approve_command sample_world
     (snd (request_approval sample_world ?bot ''rm -rf /tmp/x''
        (check_command (security_checker ?bot) ''rm -rf /tmp/x'')))
     (Some ''dbc07450''))) = [''rm -rf /tmp/x''] \<and>
   fst (approve_command sample_world
     (snd (approve_command sample_world
       (snd (request_approval sample_world ?bot ''rm -rf /tmp/x''
          (check_command (security_checker ?bot) ''rm -rf /tmp/x'')))
       (Some ''dbc07450'')))
     (Some ''dbc07450'')) = [Send NotFound]"
    by (simp add: Let_def sample_ticket_id)
  moreover from inst b
  have "approve_command sample_world ?bot (Some ''0badc0de'') = ([Send NotFound], ?bot)"
    by blast
  moreover from inst sample_other_id
  have "approve_command sample_world (snd (handle_all sample_world ?bot [Exec ''dir'']))
      (Some ''dbc07450'') =
    ([Send NotFound], snd (handle_all sample_world ?bot [Exec ''dir'']))"
    by blast
  ultimately show ?thesis using a b by simp
qed

text \<open>
  Claim C10. An approval with no identifier, with the empty identifier or with an
  identifier the ledger does not hold answers that the command was not found, executes
  nothing and leaves the bot as it was. Over all five commands of the chat surface the
  ledger changes in two ways only: a park inserts the ticket of a submitted command that
  needs approval, and an approval of an identifier present removes that one ticket.
\<close>

theorem approve_absent_changes_nothing:
  "(command_id = None \<or> command_id = Some [] \<or>
      (\<exists>cid. command_id = Some cid \<and> pending_commands self cid = None) \<longrightarrow>
    approve_command w self command_id = ([Send NotFound], self) \<and>
    executions (fst (approve_command w self command_id)) = [] \<and>
    pending_commands (snd (approve_command w self command_id)) = pending_commands self) \<and>
   pending_commands (snd (handle w self e)) =
     (case e of
        Approve command_id \<Rightarrow>
          (case command_id of
             None \<Rightarrow> pending_commands self
           | Some cid \<Rightarrow>
               (if cid \<noteq> [] \<and> pending_commands self cid \<noteq> None
                then (pending_commands self)(cid := None) else pending_commands self))
      | _ \<Rightarrow>
          parks w (filter (\<lambda>c. \<not> too_long self c \<and> needs_approval self c) (submitted self e))
            (pending_commands self))"
proof (intro conjI impI)
  assume "command_id = None \<or> command_id = Some [] \<or>
      (\<exists>cid. command_id = Some cid \<and> pending_commands self cid = None)"
  then have "approve_command w self command_id = ([Send NotFound], self)"
    by (rule approve_not_found)
  then show "approve_command w self command_id = ([Send NotFound], self)"
    "executions (fst (approve_command w self command_id)) = []"
    "pending_commands (snd (approve_command w self command_id)) = pending_commands self"
    by simp_all
next
  show "pending_commands (snd (handle w self e)) =
     (case e of
        Approve command_id \<Rightarrow>
          (case command_id of
             None \<Rightarrow> pending_commands self
           | Some cid \<Rightarrow>
               (if cid \<noteq> [] \<and> pending_commands self cid \<noteq> None
                then (pending_commands self)(cid := None) else pending_commands self))
      | _ \<Rightarrow>
          parks w (filter (\<lambda>c. \<not> too_long self c \<and> needs_approval self c) (submitted self e))
            (pending_commands self))"
    by (rule handle_pending)
qed

theorem approve_absent_witness:
  "pending_commands (DiscordBot_init DEFAULT_CONFIG) ''deadbeef'' = None \<and>
   approve_command sample_world (DiscordBot_init DEFAULT_CONFIG) (Some ''deadbeef'') =
     ([Send NotFound], DiscordBot_init DEFAULT_CONFIG) \<and>
   approve_command sample_world (DiscordBot_init DEFAULT_CONFIG) None =
     ([Send NotFound], DiscordBot_init DEFAULT_CONFIG)"
proof -
  let ?bot = "DiscordBot_init DEFAULT_CONFIG"
  have a: "pending_commands ?bot ''deadbeef'' = None"
    by (simp add: DiscordBot_init_def)
  from approve_absent_changes_nothing [of "Some ''deadbeef''" ?bot sample_world] a
  have "approve_command sample_world ?bot (Some ''deadbeef'') = ([Send NotFound], ?bot)"
    by blast
  moreover from approve_absent_changes_nothing [of None ?bot sample_world]
  have "approve_command sample_world ?bot None = ([Send NotFound], ?bot)"
    by blast
  ultimately show ?thesis using a by blast
qed



section \<open>The runner\<close>



section \<open>The history\<close>

lemma slice_bound_minus: "slice_bound n (- 20) = n - 20"
  by (simp add: slice_bound_def)

lemma length_stride5: "length (stride 5 xs) = (length xs + 4) div 5"
proof (induction "5 :: nat" xs rule: stride.induct)
  case 1
  show ?case by simp
next
  case (2 x xs)
  then have "length (stride 5 (drop 4 xs)) = (length xs - 4 + 4) div 5" by simp
  then show ?case by simp arith
qed

lemma nth_stride5: "j < length (stride 5 xs) \<Longrightarrow> stride 5 xs ! j = xs ! (5 * j)"
proof (induction "5 :: nat" xs arbitrary: j rule: stride.induct)
  case 1
  then show ?case by simp
next
  case (2 x xs)
  show ?case
  proof (cases j)
    case 0
    then show ?thesis by simp
  next
    case (Suc i)
    with 2(2) have i: "i < length (stride 5 (drop 4 xs))" by simp
    then have "drop 4 xs \<noteq> []" by auto
    then have len: "4 \<le> length xs" by simp
    from i have "stride 5 (drop 4 xs) ! i = drop 4 xs ! (5 * i)"
      using 2(1) by simp
    also have "\<dots> = xs ! (4 + 5 * i)" using len by simp
    finally show ?thesis using Suc by simp
  qed
qed

lemma stride5_every_fifth: "stride 5 xs = every_fifth xs"
  by (rule nth_equalityI) (simp_all add: every_fifth_def length_stride5 nth_stride5)

lemma subseq_drop: "subseq (drop n xs) xs"
proof -
  have "subseq (drop n xs) (take n xs @ drop n xs)"
    by (rule subseq_drop_many) simp
  then show ?thesis by simp
qed

lemma subseq_take: "subseq (take n xs) xs"
proof -
  have "subseq (take n xs) (take n xs @ drop n xs)"
    by (rule subseq_rev_drop_many) simp
  then show ?thesis by simp
qed

lemma subseq_stride: "subseq (stride k xs) xs"
proof (induction k xs rule: stride.induct)
  case (1 k)
  show ?case by simp
next
  case (2 k x xs)
  have "subseq (stride k (drop (k - 1) xs)) (drop (k - 1) xs)" by (rule 2)
  then have "subseq (stride k (drop (k - 1) xs)) xs"
    using subseq_drop [of "k - 1" xs] by (rule subseq_order.trans)
  then show ?case by simp
qed

lemma compress_history_messages:
  "int (length (messages self)) > limit self \<Longrightarrow>
   messages (compress_history self) = spec_compaction (messages self)"
  by (simp add: compress_history_def Let_def slice_from_def slice_to_step_def
      slice_bound_minus spec_compaction_def preceding_recent_def most_recent_def
      stride5_every_fifth)

lemma add_message_limit [simp]: "limit (add_message self r c now) = limit self"
  by (simp add: add_message_def compress_history_def Let_def)

lemma add_message_messages:
  "messages (add_message self r c now) =
     (if int (length (messages self)) + 1 > limit self
      then spec_compaction (messages self @ [\<lparr>role = r, content = c, timestamp = now\<rparr>])
      else messages self @ [\<lparr>role = r, content = c, timestamp = now\<rparr>])"
  by (simp add: add_message_def Let_def compress_history_messages)

lemma length_spec_compaction:
  "length (spec_compaction xs) = (length xs - 20 + 4) div 5 + min (length xs) 20"
  by (simp add: spec_compaction_def every_fifth_def preceding_recent_def most_recent_def)

lemma subseq_spec_compaction: "subseq (spec_compaction xs) xs"
proof -
  have "subseq (stride 5 (take (length xs - 20) xs)) (take (length xs - 20) xs)"
    by (rule subseq_stride)
  then have "subseq (stride 5 (take (length xs - 20) xs) @ drop (length xs - 20) xs)
      (take (length xs - 20) xs @ drop (length xs - 20) xs)"
    by (rule list_emb_append_mono) simp
  then show ?thesis
    by (simp add: spec_compaction_def preceding_recent_def most_recent_def stride5_every_fifth)
qed

lemma add_message_bound:
  assumes "21 \<le> limit self" "int (length (messages self)) \<le> limit self"
  shows "int (length (messages (add_message self r c now))) \<le> limit self"
  using assms by (simp add: add_message_messages length_spec_compaction) arith

lemma length_most_recent: "length (most_recent xs) = min (length xs) 20"
  by (simp add: most_recent_def)

lemma length_old_part:
  "length (every_fifth (preceding_recent xs)) = (length xs - 20 + 4) div 5"
  by (simp add: every_fifth_def preceding_recent_def)

lemma most_recent_nth:
  "20 \<le> length xs \<Longrightarrow> most_recent xs ! i = xs ! (length xs - 20 + i)"
  by (simp add: most_recent_def)

lemma every_fifth_nth:
  "j < length (every_fifth ys) \<Longrightarrow> every_fifth ys ! j = ys ! (5 * j)"
  by (simp add: every_fifth_def)

lemma length_preceding_recent: "length (preceding_recent xs) = length xs - 20"
  by (simp add: preceding_recent_def)

lemma compaction_old_nth:
  assumes "j < length (every_fifth (preceding_recent xs))"
  shows "spec_compaction xs ! j = xs ! (5 * j) \<and> 5 * j < length xs - 20"
proof -
  from assms have j: "j < (length xs - 20 + 4) div 5"
    by (simp add: length_old_part)
  then have lt: "5 * j < length xs - 20" by arith
  from assms have "spec_compaction xs ! j = every_fifth (preceding_recent xs) ! j"
    by (simp add: spec_compaction_def nth_append)
  also from assms have "\<dots> = preceding_recent xs ! (5 * j)"
    by (rule every_fifth_nth)
  also from lt have "\<dots> = xs ! (5 * j)"
    by (simp add: preceding_recent_def)
  finally show ?thesis using lt by simp
qed

lemma compaction_recent_nth:
  assumes "20 \<le> length xs" "i < 20"
  shows "spec_compaction xs ! (length (spec_compaction xs) - 20 + i) =
         xs ! (length xs - 20 + i)"
proof -
  from assms have "length (spec_compaction xs) - 20 + i =
      length (every_fifth (preceding_recent xs)) + i"
    by (simp add: spec_compaction_def length_most_recent)
  then have "spec_compaction xs ! (length (spec_compaction xs) - 20 + i) =
      most_recent xs ! i"
    by (simp add: spec_compaction_def nth_append)
  with assms show ?thesis by (simp add: most_recent_nth)
qed

text \<open>
  Claim C7, as stated, fails: the compaction keeps the twenty most recent entries
  whatever the limit, so under a limit of 10 the eleventh append leaves eleven entries.
\<close>

theorem history_bound_counterexample:
  "\<not> int (length (messages (add_messages (MessageHistory_init 10)
        (replicate 11 (''user'', ''hello'', ''2024-01-01T00:00:00''))))) \<le>
     limit (add_messages (MessageHistory_init 10)
        (replicate 11 (''user'', ''hello'', ''2024-01-01T00:00:00'')))"
  by code_simp

text \<open>
  Under a limit of 20 the twenty-first append leaves twenty-one entries, so 21 is the
  least limit for which the bound is kept.
\<close>

lemma history_limit_20_exceeded:
  "length (messages (add_messages (MessageHistory_init 20)
     (replicate 21 (''user'', ''hello'', ''2024-01-01T00:00:00'')))) = 21"
  by code_simp

text \<open>
  Under a limit of 10, fifteen appends leave fifteen entries: nothing is dropped while
  there are no more than twenty.
\<close>

lemma spec_example_limit_10:
  "length (messages (add_messages (MessageHistory_init 10)
     (replicate 15 (''user'', ''hello'', ''2024-01-01T00:00:00'')))) = 15"
  by code_simp

text \<open>
  Claim C7, amended. For every limit of at least 21, a history within its limit is
  within its limit again after every run of appends; the limit itself never changes.
\<close>

theorem history_bound_restored:
  assumes "21 \<le> limit self" "int (length (messages self)) \<le> limit self"
  shows "int (length (messages (add_messages self es))) \<le> limit (add_messages self es) \<and>
         limit (add_messages self es) = limit self"
  using assms
proof (induction es arbitrary: self)
  case Nil
  then show ?case by simp
next
  case (Cons e es)
  obtain r c now where e: "e = (r, c, now)" by (cases e)
  from Cons.prems have "int (length (messages (add_message self r c now))) \<le> limit self"
    by (rule add_message_bound)
  with Cons.prems Cons.IH [of "add_message self r c now"] e show ?case by simp
qed

theorem history_bound_restored_witness:
  "21 \<le> limit (MessageHistory_init 50) \<and>
   int (length (messages (MessageHistory_init 50))) \<le> limit (MessageHistory_init 50) \<and>
   int (length (messages (add_messages (MessageHistory_init 50)
      (replicate 51 (''user'', ''hello'', ''2024-01-01T00:00:00''))))) \<le> 50"
proof -
  have a: "21 \<le> limit (MessageHistory_init 50)"
    and b: "int (length (messages (MessageHistory_init 50))) \<le> limit (MessageHistory_init 50)"
    by (simp_all add: MessageHistory_init_def)
  from history_bound_restored [OF a b,
      of "replicate 51 (''user'', ''hello'', ''2024-01-01T00:00:00'')"]
  have "int (length (messages (add_messages (MessageHistory_init 50)
      (replicate 51 (''user'', ''hello'', ''2024-01-01T00:00:00''))))) \<le> 50"
    by (simp add: MessageHistory_init_def)
  with a b show ?thesis by blast
qed

text \<open>
  Claim C8. When an append brings the number of entries above the limit, the entries
  become: every fifth entry, from the oldest on, of those that precede the most recent
  twenty, followed by the most recent twenty in their order (all of them, when there are
  no more than twenty). The entry at position \<open>j\<close> of the first part is entry \<open>5 * j\<close> of
  the list before compaction, the last twenty are its last twenty, and the whole is a
  subsequence of it: every entry kept is an entry as it was, in the original order.
\<close>

theorem compaction_keeps_fifths_and_recent:
  assumes "limit self < int (length (messages self)) + 1"
  shows
    "(let xs = messages self @ [\<lparr>role = r, content = c, timestamp = now\<rparr>];
          ys = messages (add_message self r c now)
      in ys = every_fifth (preceding_recent xs) @ most_recent xs \<and>
         (20 \<le> length xs \<longrightarrow>
            length (most_recent xs) = 20 \<and>
            (\<forall>i < 20. ys ! (length ys - 20 + i) = xs ! (length xs - 20 + i))) \<and>
         (\<forall>j < length (every_fifth (preceding_recent xs)).
            ys ! j = xs ! (5 * j) \<and> 5 * j < length xs - 20) \<and>
         length ys = (length xs - 20 + 4) div 5 + min (length xs) 20 \<and>
         subseq ys xs)"
proof -
  define xs where "xs = messages self @ [\<lparr>role = r, content = c, timestamp = now\<rparr>]"
  from assms have ys: "messages (add_message self r c now) = spec_compaction xs"
    by (simp add: add_message_messages xs_def)
  have "spec_compaction xs = every_fifth (preceding_recent xs) @ most_recent xs"
    by (rule spec_compaction_def)
  moreover have "20 \<le> length xs \<longrightarrow> length (most_recent xs) = 20 \<and>
      (\<forall>i < 20. spec_compaction xs ! (length (spec_compaction xs) - 20 + i) =
         xs ! (length xs - 20 + i))"
    by (simp add: length_most_recent compaction_recent_nth)
  moreover have "\<forall>j < length (every_fifth (preceding_recent xs)).
      spec_compaction xs ! j = xs ! (5 * j) \<and> 5 * j < length xs - 20"
    using compaction_old_nth by blast
  moreover have "length (spec_compaction xs) =
      (length xs - 20 + 4) div 5 + min (length xs) 20"
    by (rule length_spec_compaction)
  moreover have "subseq (spec_compaction xs) xs"
    by (rule subseq_spec_compaction)
  ultimately show ?thesis
    unfolding Let_def ys xs_def [symmetric] by blast
qed

theorem compaction_witness:
  "limit sample_history < int (length (messages sample_history)) + 1 \<and>
   20 \<le> length (messages sample_history @
     [\<lparr>role = ''user'', content = ''Z'', timestamp = ''t''\<rparr>]) \<and>
   map content (messages (add_message sample_history ''user'' ''Z'' ''t'')) =
     map (\<lambda>c. [c]) ''AFGHIJKLMNOPQRSTUVWXYZ'' \<and>
   length (most_recent (messages sample_history @
     [\<lparr>role = ''user'', content = ''Z'', timestamp = ''t''\<rparr>])) = 20 \<and>
   length (messages (add_message sample_history ''user'' ''Z'' ''t'')) = 22"
proof -
  have a: "limit sample_history < int (length (messages sample_history)) + 1"
    by (simp add: sample_history_def)
  let ?xs = "messages sample_history @ [\<lparr>role = ''user'', content = ''Z'', timestamp = ''t''\<rparr>]"
  have b: "20 \<le> length ?xs" "length ?xs = 26"
    by (simp_all add: sample_history_def)
  note inst = compaction_keeps_fifths_and_recent [OF a, of "''user''" "''Z''" "''t''"]
  from inst have "messages (add_message sample_history ''user'' ''Z'' ''t'') =
      every_fifth (preceding_recent ?xs) @ most_recent ?xs"
    by (simp add: Let_def)
  moreover have "map content (every_fifth (preceding_recent ?xs) @ most_recent ?xs) =
      map (\<lambda>c. [c]) ''AFGHIJKLMNOPQRSTUVWXYZ''"
    by code_simp
  moreover from inst b(1) have "length (most_recent ?xs) = 20"
    unfolding Let_def by blast
  moreover from inst have "length (messages (add_message sample_history ''user'' ''Z'' ''t'')) =
      (length ?xs - 20 + 4) div 5 + min (length ?xs) 20"
    unfolding Let_def by blast
  ultimately show ?thesis using a b by simp
qed

end
